theory Spec2Isabelle
  imports Main "HOL-Library.Word"
begin

section \<open>JavaScript strings\<close>

text \<open>
  A JavaScript string is a sequence of 16-bit code units. String literals of
  \<^verbatim>\<open>static/script.js\<close> are ASCII, so \<open>lit\<close> maps each character of an
  Isabelle string to the code unit of the same number.
\<close>

type_synonym jschar = "16 word"
type_synonym jsstring = "jschar list"

definition lit :: "string \<Rightarrow> jsstring" where
  "lit s = map (\<lambda>c. of_nat (of_char c)) s"

text \<open>
  The code units \<^verbatim>\<open>String.prototype.trim\<close> removes: ECMAScript's WhiteSpace
  (TAB, VT, FF, ZWNBSP and the Unicode space separators) and LineTerminator
  (LF, CR, LS, PS). All of them are single code units.
\<close>

definition isWhiteSpace :: "jschar \<Rightarrow> bool" where
  "isWhiteSpace c \<longleftrightarrow>
     c = 0x0009 \<or> c = 0x000A \<or> c = 0x000B \<or> c = 0x000C \<or> c = 0x000D \<or>
     c = 0x0020 \<or> c = 0x00A0 \<or> c = 0x1680 \<or> (0x2000 \<le> c \<and> c \<le> 0x200A) \<or>
     c = 0x2028 \<or> c = 0x2029 \<or> c = 0x202F \<or> c = 0x205F \<or> c = 0x3000 \<or>
     c = 0xFEFF"

text \<open>
  \<^verbatim>\<open>s.split(sep)\<close> for a separator of one code unit: the substrings between
  the occurrences of the separator, in order. The result is never empty: the
  empty string splits into one empty piece (so the first case of the inner
  \<open>case\<close> is never taken).
\<close>

fun String_split :: "jschar \<Rightarrow> jsstring \<Rightarrow> jsstring list" where
  "String_split sep [] = [[]]"
| "String_split sep (c # cs) =
     (if c = sep then [] # String_split sep cs
      else (case String_split sep cs of
              [] \<Rightarrow> [[c]]
            | p # ps \<Rightarrow> (c # p) # ps))"

text \<open>\<^verbatim>\<open>s.trim()\<close>: the white space at both ends is removed.\<close>

definition String_trim :: "jsstring \<Rightarrow> jsstring" where
  "String_trim s = rev (dropWhile isWhiteSpace (rev (dropWhile isWhiteSpace s)))"

text \<open>
  \<^verbatim>\<open>ps.join(sep)\<close> on strings: the pieces with the separator between each two.
\<close>

fun Array_join :: "jsstring \<Rightarrow> jsstring list \<Rightarrow> jsstring" where
  "Array_join sep [] = []"
| "Array_join sep [p] = p"
| "Array_join sep (p # q # ps) = p @ sep @ Array_join sep (q # ps)"

definition comma :: jschar where
  "comma = 0x2C"

text \<open>
  Line 5 of the submit listener:
  \<^verbatim>\<open>formData.get('comparison_urls').split(',').map(url => url.trim()).filter(url => url)\<close>.
  A string is truthy exactly when it is not empty.
\<close>

definition comparison_urls :: "jsstring \<Rightarrow> jsstring list" where
  "comparison_urls field =
     filter (\<lambda>url. url \<noteq> []) (map (\<lambda>url. String_trim url) (String_split comma field))"



section \<open>JavaScript values\<close>

text \<open>
  The values the program handles: what \<^verbatim>\<open>response.json()\<close> can resolve to (the
  values of JSON), and \<^verbatim>\<open>undefined\<close>, the value of a missing property. A Number
  is kept as the text that \<^verbatim>\<open>Number.prototype.toString\<close> gives for it: the
  program does nothing with a number but interpolate it into a string. An
  object is kept as the list of its own properties.
\<close>

datatype jsval =
    JSUndefined
  | JSNull
  | JSBool bool
  | JSNumber jsstring
  | JSString jsstring
  | JSArray "jsval list"
  | JSObject "(jsstring \<times> jsval) list"

text \<open>
  The exceptions that can reach the program. \<open>FetchError\<close> is the error with which
  \<^verbatim>\<open>fetch\<close> rejects when the network request fails, \<open>SyntaxError\<close> the one with
  which \<^verbatim>\<open>response.json()\<close> rejects when the body is not JSON.
\<close>

datatype jserror = TypeError | SyntaxError | FetchError

text \<open>
  \<^verbatim>\<open>v.name\<close> for a property name that no built-in prototype defines, as
  \<^verbatim>\<open>task_id\<close> and \<^verbatim>\<open>status\<close>: reading a property of \<^verbatim>\<open>null\<close> or
  \<^verbatim>\<open>undefined\<close> throws a TypeError, an object gives its own property of that
  name, and every other read gives \<^verbatim>\<open>undefined\<close>.
\<close>

definition Get :: "jsval \<Rightarrow> jsstring \<Rightarrow> jserror + jsval" where
  "Get v name =
     (case v of
        JSUndefined \<Rightarrow> Inl TypeError
      | JSNull \<Rightarrow> Inl TypeError
      | JSObject props \<Rightarrow>
          (case map_of props name of None \<Rightarrow> Inr JSUndefined | Some x \<Rightarrow> Inr x)
      | _ \<Rightarrow> Inr JSUndefined)"

text \<open>
  The conversion a template literal applies to \<^verbatim>\<open>${v}\<close>. An array is joined
  with commas, \<^verbatim>\<open>null\<close> and \<^verbatim>\<open>undefined\<close> elements giving the empty string
  (\<^verbatim>\<open>Array.prototype.join\<close>). An object parsed from JSON is converted by
  \<^verbatim>\<open>Object.prototype.toString\<close>, unless it has an own property \<^verbatim>\<open>toString\<close>:
  that property holds a JSON value, which is not callable, \<^verbatim>\<open>valueOf\<close> then
  gives no primitive either, and the conversion throws a TypeError.
\<close>

fun ToString :: "jsval \<Rightarrow> jserror + jsstring"
  and ToString_elements :: "jsval list \<Rightarrow> jserror + jsstring list" where
  "ToString JSUndefined = Inr (lit ''undefined'')"
| "ToString JSNull = Inr (lit ''null'')"
| "ToString (JSBool b) = Inr (if b then lit ''true'' else lit ''false'')"
| "ToString (JSNumber digits) = Inr digits"
| "ToString (JSString s) = Inr s"
| "ToString (JSArray xs) =
     (case ToString_elements xs of
        Inl e \<Rightarrow> Inl e
      | Inr ss \<Rightarrow> Inr (Array_join [comma] ss))"
| "ToString (JSObject props) =
     (case map_of props (lit ''toString'') of
        None \<Rightarrow> Inr (lit ''[object Object]'')
      | Some _ \<Rightarrow> Inl TypeError)"
| "ToString_elements [] = Inr []"
| "ToString_elements (x # xs) =
     (case (if x = JSUndefined \<or> x = JSNull then Inr [] else ToString x) of
        Inl e \<Rightarrow> Inl e
      | Inr s \<Rightarrow>
          (case ToString_elements xs of
             Inl e \<Rightarrow> Inl e
           | Inr ss \<Rightarrow> Inr (s # ss)))"


section \<open>The page\<close>

text \<open>
  A call of \<^verbatim>\<open>fetch\<close>: its arguments and who made it, the submit listener or
  the callback of the interval timer with the given id. \<open>req_json\<close> is the value
  that \<^verbatim>\<open>JSON.stringify\<close> serialises into the body, if the call has a body.
\<close>

record request =
  req_method :: jsstring
  req_url :: jsstring
  req_headers :: "(jsstring \<times> jsstring) list"
  req_json :: "jsval option"

datatype origin = Listener | Interval nat

record fetch_call =
  origin :: origin
  request :: request

text \<open>
  What an awaited \<^verbatim>\<open>fetch\<close> followed by the awaited \<^verbatim>\<open>response.json()\<close>
  comes to: the first promise rejects, or the second does, or the body parses
  to a value. The function does nothing between the two but call
  \<^verbatim>\<open>response.json()\<close>. A response with an error status resolves like any other.
\<close>

datatype outcome = FetchRejected | JsonRejected | JsonResolved jsval

text \<open>
  A timer set by \<^verbatim>\<open>setInterval\<close>; its id is its index in \<open>timers\<close>. The callback
  is always the arrow function of \<^verbatim>\<open>pollStatus\<close>, so only the \<^verbatim>\<open>taskId\<close> of
  its closure is kept. The delay is recorded as given, in milliseconds.
\<close>

record timer =
  timer_taskId :: jsval
  timer_delay :: nat
  timer_cleared :: bool

text \<open>An assignment to the \<^verbatim>\<open>textContent\<close> of one of the two elements.\<close>

datatype dom_write = StatusText origin jsstring | Results origin jsstring

text \<open>
  The state of the page: the text of the elements \<^verbatim>\<open>statusText\<close> and
  \<^verbatim>\<open>results\<close> (both exist in the document), the timers, every call of
  \<^verbatim>\<open>fetch\<close> so far, the suspended async functions (each with the index of the
  call it awaits), the rejections nothing handles, and the history of the
  assignments to the two elements.
\<close>

record page =
  statusText :: jsstring
  results :: jsstring
  timers :: "timer list"
  fetches :: "fetch_call list"
  awaiting :: "(nat \<times> origin) list"
  unhandled :: "jserror list"
  writes :: "dom_write list"

text \<open>The form has the two text fields the listener reads.\<close>

record form =
  field_main_url :: jsstring
  field_comparison_urls :: jsstring

definition set_statusText :: "origin \<Rightarrow> jsstring \<Rightarrow> page \<Rightarrow> page" where
  "set_statusText who text s =
     s\<lparr>statusText := text, writes := writes s @ [StatusText who text]\<rparr>"

definition set_results :: "origin \<Rightarrow> jsstring \<Rightarrow> page \<Rightarrow> page" where
  "set_results who text s =
     s\<lparr>results := text, writes := writes s @ [Results who text]\<rparr>"

text \<open>\<^verbatim>\<open>await fetch(...)\<close>: the call is made and the caller is suspended on it.\<close>

definition await_fetch :: "origin \<Rightarrow> request \<Rightarrow> page \<Rightarrow> page" where
  "await_fetch who req s =
     s\<lparr>fetches := fetches s @ [\<lparr>origin = who, request = req\<rparr>],
       awaiting := awaiting s @ [(length (fetches s), who)]\<rparr>"

definition setInterval :: "jsval \<Rightarrow> nat \<Rightarrow> page \<Rightarrow> page" where
  "setInterval taskId ms s =
     s\<lparr>timers := timers s @
        [\<lparr>timer_taskId = taskId, timer_delay = ms, timer_cleared = False\<rparr>]\<rparr>"

text \<open>\<^verbatim>\<open>clearInterval(i)\<close>; an id that names no timer changes nothing.\<close>

definition clearInterval :: "nat \<Rightarrow> page \<Rightarrow> page" where
  "clearInterval i s =
     s\<lparr>timers := (timers s)[i := (timers s ! i)\<lparr>timer_cleared := True\<rparr>]\<rparr>"


section \<open>The program\<close>

text \<open>
  The submit listener up to its first \<^verbatim>\<open>await\<close> (lines 2 to 11): it reads the
  two fields and calls \<^verbatim>\<open>fetch('/analyze', ...)\<close>. (\<^verbatim>\<open>e.preventDefault()\<close> keeps
  the browser from leaving the page and changes nothing of the page's state.)
\<close>

definition submit_listener :: "form \<Rightarrow> page \<Rightarrow> page" where
  "submit_listener formData s =
     (let main_url = field_main_url formData;
          urls = comparison_urls (field_comparison_urls formData)
      in await_fetch Listener
           \<lparr>req_method = lit ''POST'',
            req_url = lit ''/analyze'',
            req_headers = [(lit ''Content-Type'', lit ''application/json'')],
            req_json = Some (JSObject
              [(lit ''main_url'', JSString main_url),
               (lit ''comparison_urls'', JSArray (map JSString urls))])\<rparr> s)"

text \<open>\<^verbatim>\<open>pollStatus(taskId)\<close> (lines 20 to 36) sets the timer and returns.\<close>

definition pollStatus :: "jsval \<Rightarrow> page \<Rightarrow> page" where
  "pollStatus taskId s = setInterval taskId 2000 s"

text \<open>
  The rest of the submit listener (lines 13 to 17), run when the awaited
  promises settle. A rejection, or the TypeError of \<^verbatim>\<open>data.task_id\<close> on a
  \<^verbatim>\<open>null\<close> body, ends the function before it has changed anything.
\<close>

definition submit_resume :: "outcome \<Rightarrow> page \<Rightarrow> jserror + page" where
  "submit_resume reply s =
     (case reply of
        FetchRejected \<Rightarrow> Inl FetchError
      | JsonRejected \<Rightarrow> Inl SyntaxError
      | JsonResolved data \<Rightarrow>
          (case Get data (lit ''task_id'') of
             Inl e \<Rightarrow> Inl e
           | Inr taskId \<Rightarrow>
               Inr (pollStatus taskId
                      (set_statusText Listener (lit ''Task started...'') s))))"

text \<open>
  The callback of timer \<open>i\<close> up to its first \<^verbatim>\<open>await\<close> (line 25): the template
  literal is evaluated, then \<^verbatim>\<open>fetch\<close> is called with it.
\<close>

definition interval_callback :: "nat \<Rightarrow> page \<Rightarrow> jserror + page" where
  "interval_callback i s =
     (case ToString (timer_taskId (timers s ! i)) of
        Inl e \<Rightarrow> Inl e
      | Inr segment \<Rightarrow>
          Inr (await_fetch (Interval i)
                 \<lparr>req_method = lit ''GET'',
                  req_url = lit ''/results/'' @ segment,
                  req_headers = [],
                  req_json = None\<rparr> s))"

text \<open>The rest of the callback of timer \<open>i\<close> (lines 26 to 34).\<close>

definition interval_resume :: "nat \<Rightarrow> outcome \<Rightarrow> page \<Rightarrow> jserror + page" where
  "interval_resume i reply s =
     (case reply of
        FetchRejected \<Rightarrow> Inl FetchError
      | JsonRejected \<Rightarrow> Inl SyntaxError
      | JsonResolved data \<Rightarrow>
          (case Get data (lit ''status'') of
             Inl e \<Rightarrow> Inl e
           | Inr status \<Rightarrow>
               if status = JSString (lit ''Analysis Completed'') then
                 Inr (set_results (Interval i)
                        (lit ''Check your analysis results in server logs or API response.'')
                        (set_statusText (Interval i) (lit ''Analysis Completed!'')
                           (clearInterval i s)))
               else
                 (case ToString status of
                    Inl e \<Rightarrow> Inl e
                  | Inr text \<Rightarrow>
                      Inr (set_statusText (Interval i) (lit ''Current Task: '' @ text) s))))"


section \<open>The event loop\<close>

text \<open>
  What can happen on the page: the form is submitted, timer \<open>i\<close> fires, or the
  promises awaited on fetch call \<open>k\<close> settle. A cleared timer does not fire, and
  a call settles once.
\<close>

datatype event = Submit form | Tick nat | Settle nat outcome

text \<open>No caller handles the promise of either async function.\<close>

definition finish :: "jserror + page \<Rightarrow> page \<Rightarrow> page" where
  "finish r s = (case r of Inl e \<Rightarrow> s\<lparr>unhandled := unhandled s @ [e]\<rparr> | Inr s' \<Rightarrow> s')"

definition resumed :: "nat \<Rightarrow> page \<Rightarrow> page" where
  "resumed k s = s\<lparr>awaiting := filter (\<lambda>a. fst a \<noteq> k) (awaiting s)\<rparr>"

definition step :: "page \<Rightarrow> event \<Rightarrow> page option" where
  "step s ev =
     (case ev of
        Submit formData \<Rightarrow> Some (submit_listener formData s)
      | Tick i \<Rightarrow>
          if i < length (timers s) \<and> \<not> timer_cleared (timers s ! i)
          then Some (finish (interval_callback i s) s)
          else None
      | Settle k reply \<Rightarrow>
          (case map_of (awaiting s) k of
             None \<Rightarrow> None
           | Some Listener \<Rightarrow>
               Some (finish (submit_resume reply (resumed k s)) (resumed k s))
           | Some (Interval i) \<Rightarrow>
               Some (finish (interval_resume i reply (resumed k s)) (resumed k s))))"

fun run :: "page \<Rightarrow> event list \<Rightarrow> page option" where
  "run s [] = Some s"
| "run s (ev # evs) = (case step s ev of None \<Rightarrow> None | Some s' \<Rightarrow> run s' evs)"

text \<open>The page as loaded, with whatever text the two elements start with.\<close>

definition page_load :: "jsstring \<Rightarrow> jsstring \<Rightarrow> page" where
  "page_load status_text results_text =
     \<lparr>statusText = status_text, results = results_text, timers = [], fetches = [],
      awaiting = [], unhandled = [], writes = []\<rparr>"


section \<open>What is observed of a poll loop\<close>

text \<open>The poll loop of timer \<open>i\<close> is polling, or has been stopped.\<close>

definition polling :: "nat \<Rightarrow> page \<Rightarrow> bool" where
  "polling i s \<longleftrightarrow> i < length (timers s) \<and> \<not> timer_cleared (timers s ! i)"

definition stopped :: "nat \<Rightarrow> page \<Rightarrow> bool" where
  "stopped i s \<longleftrightarrow> i < length (timers s) \<and> timer_cleared (timers s ! i)"

text \<open>The status queries the loop has issued, and whether one is in flight.\<close>

definition queries :: "nat \<Rightarrow> page \<Rightarrow> request list" where
  "queries i s = map request (filter (\<lambda>f. origin f = Interval i) (fetches s))"

definition in_flight :: "nat \<Rightarrow> page \<Rightarrow> bool" where
  "in_flight i s \<longleftrightarrow> Interval i \<in> snd ` set (awaiting s)"

text \<open>The assignments a function has made, and all those to \<^verbatim>\<open>results\<close>.\<close>

fun writer :: "dom_write \<Rightarrow> origin" where
  "writer (StatusText who text) = who"
| "writer (Results who text) = who"

fun is_Results :: "dom_write \<Rightarrow> bool" where
  "is_Results (StatusText who text) = False"
| "is_Results (Results who text) = True"

definition writes_by :: "origin \<Rightarrow> page \<Rightarrow> dom_write list" where
  "writes_by who s = filter (\<lambda>w. writer w = who) (writes s)"

definition results_writes :: "page \<Rightarrow> dom_write list" where
  "results_writes s = filter is_Results (writes s)"

text \<open>The completion update of loop \<open>i\<close>, and how often it has been made.\<close>

definition completion :: "nat \<Rightarrow> dom_write list" where
  "completion i =
     [StatusText (Interval i) (lit ''Analysis Completed!''),
      Results (Interval i)
        (lit ''Check your analysis results in server logs or API response.'')]"

definition completions :: "nat \<Rightarrow> page \<Rightarrow> nat" where
  "completions i s =
     length (filter (\<lambda>w. w = StatusText (Interval i) (lit ''Analysis Completed!'')) (writes s))"

text \<open>A reply in which \<^verbatim>\<open>data.status === 'Analysis Completed'\<close> holds.\<close>

definition terminal :: "outcome \<Rightarrow> bool" where
  "terminal reply \<longleftrightarrow>
     (case reply of
        JsonResolved data \<Rightarrow> Get data (lit ''status'') = Inr (JSString (lit ''Analysis Completed''))
      | _ \<Rightarrow> False)"


text \<open>
  The replies to the status queries of loop \<open>i\<close> that a run from \<open>s\<close>
  processes, in the order in which it processes them.
\<close>

fun replies_to :: "nat \<Rightarrow> page \<Rightarrow> event list \<Rightarrow> outcome list" where
  "replies_to i s [] = []"
| "replies_to i s (ev # evs) =
     (case ev of
        Settle k reply \<Rightarrow> if map_of (awaiting s) k = Some (Interval i) then [reply] else []
      | _ \<Rightarrow> []) @
     (case step s ev of None \<Rightarrow> [] | Some s' \<Rightarrow> replies_to i s' evs)"

text \<open>
  What the callback of timer \<open>i\<close> assigns when it processes a reply: the
  assignments it makes on a page that had none.
\<close>

definition assigned :: "nat \<Rightarrow> outcome \<Rightarrow> dom_write list" where
  "assigned i reply =
     (case interval_resume i reply (page_load [] []) of
        Inl e \<Rightarrow> []
      | Inr s \<Rightarrow> writes s)"

text \<open>The request of a status query for a task id that converts to \<open>segment\<close>.\<close>

definition status_query :: "jsstring \<Rightarrow> request" where
  "status_query segment =
     \<lparr>req_method = lit ''GET'', req_url = lit ''/results/'' @ segment,
      req_headers = [], req_json = None\<rparr>"

text \<open>
  Replies and a form for the examples, and the page after the form was
  submitted, the task was created with id \<^verbatim>\<open>"t"\<close> and the timer fired once.
\<close>

definition status_reply :: "string \<Rightarrow> outcome" where
  "status_reply s = JsonResolved (JSObject [(lit ''status'', JSString (lit s))])"

definition task_reply :: "string \<Rightarrow> outcome" where
  "task_reply s = JsonResolved (JSObject [(lit ''task_id'', JSString (lit s))])"

definition example_form :: form where
  "example_form = \<lparr>field_main_url = lit ''http://x'', field_comparison_urls = lit ''a, b ,, c''\<rparr>"

definition example_history :: "event list" where
  "example_history = [Submit example_form, Settle 0 (task_reply ''t''), Tick 0]"

definition example_page :: page where
  "example_page =
     \<lparr>statusText = lit ''Task started...'',
      results = lit ''none'',
      timers = [\<lparr>timer_taskId = JSString (lit ''t''), timer_delay = 2000,
                 timer_cleared = False\<rparr>],
      fetches =
        [\<lparr>origin = Listener,
          request =
            \<lparr>req_method = lit ''POST'',
             req_url = lit ''/analyze'',
             req_headers = [(lit ''Content-Type'', lit ''application/json'')],
             req_json = Some (JSObject
               [(lit ''main_url'', JSString (lit ''http://x'')),
                (lit ''comparison_urls'',
                 JSArray [JSString (lit ''a''), JSString (lit ''b''), JSString (lit ''c'')])])\<rparr>\<rparr>,
         \<lparr>origin = Interval 0, request = status_query (lit ''t'')\<rparr>],
      awaiting = [(1, Interval 0)],
      unhandled = [],
      writes = [StatusText Listener (lit ''Task started...'')]\<rparr>"


section \<open>Invariant of the reachable pages\<close>

text \<open>
  Every suspended callback and every status query belongs to a timer that
  exists, and a status query carries the task id of its timer.
\<close>

definition wf_page :: "page \<Rightarrow> bool" where
  "wf_page s \<longleftrightarrow>
     (\<forall>a \<in> set (awaiting s). \<forall>i. snd a = Interval i \<longrightarrow> i < length (timers s)) \<and>
     (\<forall>f \<in> set (fetches s). \<forall>i. origin f = Interval i \<longrightarrow>
        i < length (timers s) \<and>
        (\<exists>segment. ToString (timer_taskId (timers s ! i)) = Inr segment \<and>
           request f = status_query segment))"


section \<open>Properties of the string functions\<close>

lemma String_split_not_Nil: "String_split sep s \<noteq> []"
  by (induction s) (auto split: list.splits)

lemma Array_join_split: "Array_join [sep] (String_split sep s) = s"
proof (induction s)
  case Nil
  show ?case by simp
next
  case (Cons c cs)
  obtain p ps where split: "String_split sep cs = p # ps"
    using String_split_not_Nil [of sep cs] by (cases "String_split sep cs") auto
  show ?case
  proof (cases "c = sep")
    case True
    with Cons split show ?thesis by simp
  next
    case False
    with Cons split show ?thesis by (cases ps) auto
  qed
qed

lemma String_split_no_sep: "p \<in> set (String_split sep s) \<Longrightarrow> sep \<notin> set p"
proof (induction s arbitrary: p)
  case Nil
  then show ?case by simp
next
  case (Cons c cs)
  show ?case
  proof (cases "String_split sep cs")
    case Nil
    with Cons.prems show ?thesis
      by (simp split: if_splits)
  next
    case (Cons q qs)
    have q: "sep \<notin> set q" and qs: "\<And>r. r \<in> set qs \<Longrightarrow> sep \<notin> set r"
      using Cons.IH [unfolded Cons] by simp_all
    show ?thesis
    proof (cases "c = sep")
      case True
      with Cons.prems Cons q qs show ?thesis
        by auto
    next
      case False
      with Cons.prems Cons q qs show ?thesis
        by auto
    qed
  qed
qed

lemma rev_dropWhile_takeWhile:
  "rev (dropWhile P (rev d)) @ rev (takeWhile P (rev d)) = d"
proof -
  have "takeWhile P (rev d) @ dropWhile P (rev d) = rev d"
    by (rule takeWhile_dropWhile_id)
  then have "rev (takeWhile P (rev d) @ dropWhile P (rev d)) = rev (rev d)"
    by (rule arg_cong)
  then show ?thesis
    by (simp only: rev_append rev_rev_ident)
qed

lemma String_trim_decompose:
  "s = takeWhile isWhiteSpace s @ String_trim s
         @ rev (takeWhile isWhiteSpace (rev (dropWhile isWhiteSpace s)))"
  unfolding String_trim_def
  by (simp only: rev_dropWhile_takeWhile takeWhile_dropWhile_id)

lemma String_trim_hd:
  assumes "String_trim s \<noteq> []"
  shows "\<not> isWhiteSpace (hd (String_trim s))"
proof -
  let ?d = "dropWhile isWhiteSpace s"
  let ?r = "rev (takeWhile isWhiteSpace (rev ?d))"
  have d: "String_trim s @ ?r = ?d"
    unfolding String_trim_def by (rule rev_dropWhile_takeWhile)
  from assms have "hd (String_trim s @ ?r) = hd (String_trim s)"
    by (rule hd_append2)
  with d have hd: "hd ?d = hd (String_trim s)"
    by simp
  from assms d have "?d \<noteq> []"
    by (metis append_is_Nil_conv)
  then have "\<not> isWhiteSpace (hd ?d)"
    by (rule hd_dropWhile)
  with hd show ?thesis
    by simp
qed

lemma String_trim_last:
  assumes "String_trim s \<noteq> []"
  shows "\<not> isWhiteSpace (last (String_trim s))"
proof -
  let ?e = "dropWhile isWhiteSpace (rev (dropWhile isWhiteSpace s))"
  from assms have e: "?e \<noteq> []"
    by (simp add: String_trim_def)
  then have "\<not> isWhiteSpace (hd ?e)"
    by (rule hd_dropWhile)
  with e show ?thesis
    by (simp add: String_trim_def last_rev)
qed

lemma comparison_urls_example:
  "comparison_urls (lit ''a, b ,, c'') = [lit ''a'', lit ''b'', lit ''c'']"
  by (simp add: comparison_urls_def comma_def lit_def String_trim_def isWhiteSpace_def)

lemma comparison_urls_empty: "comparison_urls (lit '''') = []"
  by (simp add: comparison_urls_def comma_def lit_def String_trim_def)


section \<open>Steps and runs\<close>

lemmas page_ops =
  set_statusText_def set_results_def await_fetch_def setInterval_def clearInterval_def
  pollStatus_def finish_def resumed_def submit_listener_def submit_resume_def
  interval_callback_def interval_resume_def

lemma step_Submit: "step s (Submit formData) = Some (submit_listener formData s)"
  by (simp add: step_def)

lemma step_Tick:
  "step s (Tick i) = (if polling i s then Some (finish (interval_callback i s) s) else None)"
  by (simp add: step_def polling_def)

lemma step_Settle:
  "step s (Settle k reply) =
     (case map_of (awaiting s) k of
        None \<Rightarrow> None
      | Some Listener \<Rightarrow> Some (finish (submit_resume reply (resumed k s)) (resumed k s))
      | Some (Interval i) \<Rightarrow>
          Some (finish (interval_resume i reply (resumed k s)) (resumed k s)))"
  by (simp add: step_def)

lemma run_append:
  "run s (xs @ ys) = (case run s xs of None \<Rightarrow> None | Some s' \<Rightarrow> run s' ys)"
  by (induction xs arbitrary: s) (auto split: option.splits)

lemma run_invariant:
  assumes "run s evs = Some s'" and "P s"
    and "\<And>s ev s'. P s \<Longrightarrow> step s ev = Some s' \<Longrightarrow> P s'"
  shows "P s'"
  using assms(1,2)
proof (induction evs arbitrary: s)
  case Nil
  then show ?case by simp
next
  case (Cons ev evs)
  from Cons.prems(1) obtain s1 where s1: "step s ev = Some s1" and rest: "run s1 evs = Some s'"
    by (auto split: option.splits)
  from Cons.prems(2) s1 have "P s1"
    by (rule assms(3))
  with rest show ?case
    by (rule Cons.IH)
qed

lemma nth_clear_taskId:
  "i < length ts \<Longrightarrow>
   timer_taskId (ts[j := (ts ! j)\<lparr>timer_cleared := True\<rparr>] ! i) = timer_taskId (ts ! i)"
  by (cases "j < length ts") (auto simp: nth_list_update)

lemma nth_clear_cleared:
  "i < length ts \<Longrightarrow>
   timer_cleared (ts[j := (ts ! j)\<lparr>timer_cleared := True\<rparr>] ! i) =
     (i = j \<or> timer_cleared (ts ! i))"
  by (cases "j < length ts") (auto simp: nth_list_update)

lemma step_timers:
  assumes "step s ev = Some s'" and "i < length (timers s)"
  shows "i < length (timers s') \<and>
         timer_taskId (timers s' ! i) = timer_taskId (timers s ! i) \<and>
         (timer_cleared (timers s ! i) \<longrightarrow> timer_cleared (timers s' ! i))"
proof (cases ev)
  case (Submit formData)
  with assms show ?thesis
    by (auto simp: step_Submit page_ops Let_def)
next
  case (Tick j)
  with assms show ?thesis
    by (auto simp: step_Tick page_ops split: if_splits sum.splits)
next
  case (Settle k reply)
  with assms show ?thesis
    by (auto simp: step_Settle page_ops nth_append nth_clear_taskId nth_clear_cleared
        split: option.splits origin.splits outcome.splits sum.splits if_splits)
qed


lemma step_stopped: "step s ev = Some s' \<Longrightarrow> stopped i s \<Longrightarrow> stopped i s'"
  using step_timers [of s ev s' i] by (simp add: stopped_def)

lemma step_queries_stopped:
  assumes "step s ev = Some s'" and "stopped i s"
  shows "queries i s' = queries i s"
proof (cases ev)
  case (Submit formData)
  with assms show ?thesis
    by (auto simp: step_Submit page_ops Let_def queries_def)
next
  case (Tick j)
  with assms show ?thesis
    by (auto simp: step_Tick page_ops queries_def polling_def stopped_def
        split: if_splits sum.splits)
next
  case (Settle k reply)
  with assms show ?thesis
    by (auto simp: step_Settle page_ops queries_def
        split: option.splits origin.splits outcome.splits sum.splits if_splits)
qed

lemma step_idle:
  assumes "step s ev = Some s'" and "stopped i s" and "\<not> in_flight i s"
  shows "\<not> in_flight i s' \<and> writes_by (Interval i) s' = writes_by (Interval i) s"
proof (cases ev)
  case (Submit formData)
  with assms show ?thesis
    by (auto simp: step_Submit page_ops Let_def in_flight_def writes_by_def)
next
  case (Tick j)
  with assms show ?thesis
    by (auto simp: step_Tick page_ops in_flight_def writes_by_def polling_def stopped_def
        split: if_splits sum.splits)
next
  case (Settle k reply)
  show ?thesis
  proof (cases "map_of (awaiting s) k")
    case None
    with assms Settle show ?thesis
      by (simp add: step_Settle)
  next
    case (Some who)
    then have "(k, who) \<in> set (awaiting s)"
      by (rule map_of_SomeD)
    with assms(3) have who: "who \<noteq> Interval i"
      by (force simp: in_flight_def)
    with assms Settle Some show ?thesis
      by (auto simp: step_Settle page_ops in_flight_def writes_by_def
          split: origin.splits outcome.splits sum.splits if_splits)
  qed
qed


lemma step_awaiting:
  assumes "step s ev = Some s'" and "a \<in> set (awaiting s')"
  shows "a \<in> set (awaiting s) \<or> snd a = Listener \<or>
         (\<exists>j. snd a = Interval j \<and> j < length (timers s))"
proof (cases ev)
  case (Submit formData)
  with assms show ?thesis
    by (auto simp: step_Submit page_ops Let_def)
next
  case (Tick j)
  with assms show ?thesis
    by (auto simp: step_Tick page_ops polling_def split: if_splits sum.splits)
next
  case (Settle k reply)
  with assms show ?thesis
    by (auto simp: step_Settle page_ops
        split: option.splits origin.splits outcome.splits sum.splits if_splits)
qed

lemma step_fetches:
  assumes "step s ev = Some s'" and "f \<in> set (fetches s')"
  shows "f \<in> set (fetches s) \<or> origin f = Listener \<or>
         (\<exists>j segment. origin f = Interval j \<and> j < length (timers s) \<and>
            ToString (timer_taskId (timers s ! j)) = Inr segment \<and>
            request f = status_query segment)"
proof (cases ev)
  case (Submit formData)
  with assms show ?thesis
    by (auto simp: step_Submit page_ops Let_def)
next
  case (Tick j)
  with assms show ?thesis
    by (auto simp: step_Tick page_ops polling_def status_query_def split: if_splits sum.splits)
next
  case (Settle k reply)
  with assms show ?thesis
    by (auto simp: step_Settle page_ops
        split: option.splits origin.splits outcome.splits sum.splits if_splits)
qed

lemma wf_page_load: "wf_page (page_load status_text results_text)"
  by (simp add: wf_page_def page_load_def)

lemma wf_step:
  assumes wf: "wf_page s" and step: "step s ev = Some s'"
  shows "wf_page s'"
  unfolding wf_page_def
proof (intro conjI ballI allI impI)
  fix a i
  assume a: "a \<in> set (awaiting s')" and i: "snd a = Interval i"
  from step_awaiting [OF step a] i wf have "i < length (timers s)"
    by (auto simp: wf_page_def)
  with step_timers [OF step] show "i < length (timers s')"
    by blast
next
  fix f i
  assume f: "f \<in> set (fetches s')" and i: "origin f = Interval i"
  from step_fetches [OF step f] i wf
  have old: "i < length (timers s) \<and>
      (\<exists>segment. ToString (timer_taskId (timers s ! i)) = Inr segment \<and>
         request f = status_query segment)"
    by (auto simp: wf_page_def)
  with step_timers [OF step, of i] show "i < length (timers s')"
    by blast
  from old step_timers [OF step, of i]
  show "\<exists>segment. ToString (timer_taskId (timers s' ! i)) = Inr segment \<and>
      request f = status_query segment"
    by auto
qed

lemma wf_run: "run s evs = Some s' \<Longrightarrow> wf_page s \<Longrightarrow> wf_page s'"
  by (rule run_invariant [where P = wf_page]) (auto intro: wf_step)

lemma wf_reachable: "run (page_load status_text results_text) evs = Some s \<Longrightarrow> wf_page s"
  by (rule wf_run [OF _ wf_page_load])

lemma run_timers:
  assumes "run s evs = Some s'" and "i < length (timers s)"
  shows "i < length (timers s') \<and> timer_taskId (timers s' ! i) = timer_taskId (timers s ! i)"
  using assms(1)
proof (rule run_invariant
    [where P = "\<lambda>x. i < length (timers x) \<and>
       timer_taskId (timers x ! i) = timer_taskId (timers s ! i)"])
  show "i < length (timers s) \<and> timer_taskId (timers s ! i) = timer_taskId (timers s ! i)"
    using assms(2) by simp
next
  fix x ev x'
  assume "i < length (timers x) \<and> timer_taskId (timers x ! i) = timer_taskId (timers s ! i)"
    and "step x ev = Some x'"
  then show "i < length (timers x') \<and>
      timer_taskId (timers x' ! i) = timer_taskId (timers s ! i)"
    using step_timers [of x ev x' i] by simp
qed

lemma run_stopped:
  assumes "run s evs = Some s'" and "stopped i s"
  shows "stopped i s' \<and> queries i s' = queries i s"
  using assms(1)
proof (rule run_invariant [where P = "\<lambda>x. stopped i x \<and> queries i x = queries i s"])
  show "stopped i s \<and> queries i s = queries i s"
    using assms(2) by simp
next
  fix x ev x'
  assume "stopped i x \<and> queries i x = queries i s" and "step x ev = Some x'"
  then show "stopped i x' \<and> queries i x' = queries i s"
    using step_stopped [of x ev x' i] step_queries_stopped [of x ev x' i] by simp
qed

lemma run_idle:
  assumes "run s evs = Some s'" and "stopped i s" and "\<not> in_flight i s"
  shows "\<not> in_flight i s' \<and> writes_by (Interval i) s' = writes_by (Interval i) s"
proof -
  have "stopped i s' \<and> \<not> in_flight i s' \<and>
      writes_by (Interval i) s' = writes_by (Interval i) s"
    using assms(1)
  proof (rule run_invariant
      [where P = "\<lambda>x. stopped i x \<and> \<not> in_flight i x \<and>
         writes_by (Interval i) x = writes_by (Interval i) s"])
    show "stopped i s \<and> \<not> in_flight i s \<and>
        writes_by (Interval i) s = writes_by (Interval i) s"
      using assms(2,3) by simp
  next
    fix x ev x'
    assume "stopped i x \<and> \<not> in_flight i x \<and>
        writes_by (Interval i) x = writes_by (Interval i) s"
      and "step x ev = Some x'"
    then show "stopped i x' \<and> \<not> in_flight i x' \<and>
        writes_by (Interval i) x' = writes_by (Interval i) s"
      using step_stopped [of x ev x' i] step_idle [of x ev x' i] by simp
  qed
  then show ?thesis
    by simp
qed

text \<open>What a terminal reply to a status query of loop \<open>i\<close> does.\<close>

lemma step_terminal:
  assumes "step s (Settle k reply) = Some s'"
    and "map_of (awaiting s) k = Some (Interval i)"
    and "terminal reply"
  shows "s' = set_results (Interval i)
           (lit ''Check your analysis results in server logs or API response.'')
           (set_statusText (Interval i) (lit ''Analysis Completed!'')
              (clearInterval i (resumed k s)))"
  using assms
  by (auto simp: step_Settle terminal_def interval_resume_def finish_def
      split: outcome.splits)

lemma step_status:
  assumes "step s (Settle k (JsonResolved data)) = Some s'"
    and "map_of (awaiting s) k = Some (Interval i)"
    and "Get data (lit ''status'') = Inr status"
    and "status \<noteq> JSString (lit ''Analysis Completed'')"
  shows "s' = (case ToString status of
                 Inl e \<Rightarrow> (resumed k s)\<lparr>unhandled := unhandled s @ [e]\<rparr>
               | Inr text \<Rightarrow>
                   set_statusText (Interval i) (lit ''Current Task: '' @ text) (resumed k s))"
  using assms
  by (auto simp: step_Settle interval_resume_def finish_def resumed_def split: sum.splits)

lemma step_not_terminal:
  assumes "step s (Settle k reply) = Some s'"
    and "map_of (awaiting s) k = Some (Interval i)"
    and "\<not> terminal reply"
  shows "(\<exists>label. s' = set_statusText (Interval i) label (resumed k s)) \<or>
         (\<exists>e. s' = (resumed k s)\<lparr>unhandled := unhandled s @ [e]\<rparr>)"
  using assms
  by (auto simp: step_Settle interval_resume_def finish_def resumed_def terminal_def
      split: outcome.splits sum.splits if_splits)


text \<open>The assignments of a poll loop follow the replies to its queries.\<close>

lemma interval_resume_writes:
  "writes (finish (interval_resume i reply s) s) = writes s @ assigned i reply"
  by (auto simp: assigned_def interval_resume_def finish_def set_statusText_def
      set_results_def clearInterval_def page_load_def split: outcome.splits sum.splits)

lemma assigned_writer: "w \<in> set (assigned i reply) \<Longrightarrow> writer w = Interval i"
  by (auto simp: assigned_def interval_resume_def set_statusText_def set_results_def
      clearInterval_def page_load_def split: outcome.splits sum.splits if_splits)

lemma assigned_terminal: "terminal reply \<Longrightarrow> assigned i reply = completion i"
  by (auto simp: assigned_def terminal_def interval_resume_def set_statusText_def
      set_results_def clearInterval_def completion_def page_load_def split: outcome.splits)

lemma assigned_label:
  assumes "Get data (lit ''status'') = Inr (JSString label)"
    and "label \<noteq> lit ''Analysis Completed''"
  shows "assigned i (JsonResolved data) =
     [StatusText (Interval i) (lit ''Current Task: '' @ label)]"
  using assms by (simp add: assigned_def interval_resume_def set_statusText_def page_load_def)

lemma assigned_completions:
  "length (filter (\<lambda>w. w = StatusText (Interval i) (lit ''Analysis Completed!''))
     (assigned i reply)) = (if terminal reply then 1 else 0)"
proof (cases "terminal reply")
  case True
  then show ?thesis
    by (simp add: assigned_terminal completion_def)
next
  case False
  have "lit ''Current Task: '' @ label \<noteq> lit ''Analysis Completed!''" for label
    by (simp add: lit_def)
  with False show ?thesis
    by (auto simp: assigned_def terminal_def interval_resume_def set_statusText_def
        page_load_def split: outcome.splits sum.splits)
qed

lemma filter_writer_all:
  "(\<And>w. w \<in> set ws \<Longrightarrow> writer w = who) \<Longrightarrow> filter (\<lambda>w. writer w = who) ws = ws"
  by (simp add: filter_id_conv)

lemma filter_writer_none:
  "(\<And>w. w \<in> set ws \<Longrightarrow> writer w \<noteq> who) \<Longrightarrow> filter (\<lambda>w. writer w = who) ws = []"
  by (simp add: filter_empty_conv)

lemma step_writes_by:
  assumes "step s ev = Some s'"
  shows "writes_by (Interval i) s' =
     writes_by (Interval i) s @ concat (map (assigned i) (replies_to i s [ev]))"
proof (cases ev)
  case (Submit formData)
  with assms show ?thesis
    by (auto simp: step_Submit page_ops Let_def writes_by_def)
next
  case (Tick j)
  with assms show ?thesis
    by (auto simp: step_Tick page_ops writes_by_def split: if_splits sum.splits)
next
  case (Settle k reply)
  show ?thesis
  proof (cases "map_of (awaiting s) k")
    case None
    with assms Settle show ?thesis
      by (simp add: step_Settle)
  next
    case (Some who)
    show ?thesis
    proof (cases who)
      case Listener
      with assms Settle Some show ?thesis
        by (auto simp: step_Settle page_ops writes_by_def split: outcome.splits sum.splits)
    next
      case (Interval j)
      with assms Settle Some
      have "s' = finish (interval_resume j reply (resumed k s)) (resumed k s)"
        by (simp add: step_Settle)
      then have writes: "writes s' = writes s @ assigned j reply"
        by (simp add: interval_resume_writes resumed_def)
      show ?thesis
      proof (cases "j = i")
        case True
        with writes Settle Some Interval assms show ?thesis
          by (simp add: writes_by_def filter_writer_all assigned_writer)
      next
        case False
        then have "filter (\<lambda>w. writer w = Interval i) (assigned j reply) = []"
          by (intro filter_writer_none) (auto dest: assigned_writer)
        with False writes Settle Some Interval assms show ?thesis
          by (simp add: writes_by_def)
      qed
    qed
  qed
qed

lemma run_writes_by:
  assumes "run s evs = Some s'"
  shows "writes_by (Interval i) s' =
     writes_by (Interval i) s @ concat (map (assigned i) (replies_to i s evs))"
  using assms
proof (induction evs arbitrary: s)
  case Nil
  then show ?case by simp
next
  case (Cons ev evs)
  from Cons.prems obtain s1 where s1: "step s ev = Some s1" and rest: "run s1 evs = Some s'"
    by (auto split: option.splits)
  from s1 have "replies_to i s (ev # evs) = replies_to i s [ev] @ replies_to i s1 evs"
    by simp
  with Cons.IH [OF rest] step_writes_by [OF s1, of i] show ?case
    by simp
qed

lemma completions_writes_by:
  "completions i s =
     length (filter (\<lambda>w. w = StatusText (Interval i) (lit ''Analysis Completed!''))
       (writes_by (Interval i) s))"
  unfolding completions_def writes_by_def filter_filter
  by (rule arg_cong [where f = length], rule filter_cong) auto

lemma completions_replies:
  "length (filter (\<lambda>w. w = StatusText (Interval i) (lit ''Analysis Completed!''))
     (concat (map (assigned i) replies))) = length (filter terminal replies)"
  by (induction replies) (simp_all add: assigned_completions)

lemma run_completions:
  assumes "run s evs = Some s'"
  shows "completions i s' = completions i s + length (filter terminal (replies_to i s evs))"
  by (simp add: completions_writes_by run_writes_by [OF assms] completions_replies)

lemma assigned_results:
  "filter is_Results (assigned i reply) =
     (if terminal reply
      then [Results (Interval i)
              (lit ''Check your analysis results in server logs or API response.'')]
      else [])"
proof (cases "terminal reply")
  case True
  then show ?thesis
    by (simp add: assigned_terminal completion_def)
next
  case False
  then show ?thesis
    by (auto simp: assigned_def terminal_def interval_resume_def set_statusText_def
        page_load_def split: outcome.splits sum.splits)
qed

lemma results_replies:
  "filter is_Results (concat (map (assigned i) replies)) =
     replicate (length (filter terminal replies))
       (Results (Interval i)
          (lit ''Check your analysis results in server logs or API response.''))"
  by (induction replies) (simp_all add: assigned_results)

lemma run_results:
  assumes "run s evs = Some s'"
  shows "filter is_Results (writes_by (Interval i) s') =
     filter is_Results (writes_by (Interval i) s) @
       replicate (length (filter terminal (replies_to i s evs)))
         (Results (Interval i)
            (lit ''Check your analysis results in server logs or API response.''))"
  by (simp add: run_writes_by [OF assms] results_replies)

lemma primitive_ToString:
  "(\<exists>xs. v = JSArray xs) \<or> (\<exists>props. v = JSObject props) \<or> (\<exists>text. ToString v = Inr text)"
  by (cases v) simp_all


lemma step_polling:
  assumes "step s ev = Some s'" and "polling i s"
    and "\<forall>reply \<in> set (replies_to i s [ev]). \<not> terminal reply"
  shows "polling i s'"
proof (cases ev)
  case (Submit formData)
  with assms show ?thesis
    by (auto simp: step_Submit page_ops Let_def polling_def)
next
  case (Tick j)
  with assms show ?thesis
    by (auto simp: step_Tick page_ops polling_def split: if_splits sum.splits)
next
  case (Settle k reply)
  show ?thesis
  proof (cases "map_of (awaiting s) k")
    case None
    with assms Settle show ?thesis
      by (simp add: step_Settle)
  next
    case (Some who)
    show ?thesis
    proof (cases who)
      case Listener
      with assms Settle Some show ?thesis
        by (auto simp: step_Settle page_ops polling_def nth_append
            split: outcome.splits sum.splits)
    next
      case (Interval j)
      from assms(1) Settle have settle: "step s (Settle k reply) = Some s'"
        by simp
      from Some Interval have mine: "map_of (awaiting s) k = Some (Interval j)"
        by simp
      show ?thesis
      proof (cases "terminal reply")
        case True
        with assms(3) Settle mine have "j \<noteq> i"
          by auto
        moreover from settle mine True
        have "s' = set_results (Interval j)
            (lit ''Check your analysis results in server logs or API response.'')
            (set_statusText (Interval j) (lit ''Analysis Completed!'')
               (clearInterval j (resumed k s)))"
          by (rule step_terminal)
        ultimately show ?thesis
          using assms(2) by (simp add: polling_def page_ops nth_clear_cleared)
      next
        case False
        with settle mine
        have "(\<exists>label. s' = set_statusText (Interval j) label (resumed k s)) \<or>
            (\<exists>e. s' = (resumed k s)\<lparr>unhandled := unhandled s @ [e]\<rparr>)"
          by (rule step_not_terminal)
        with assms(2) show ?thesis
          by (auto simp: polling_def set_statusText_def resumed_def)
      qed
    qed
  qed
qed

lemma step_queries:
  assumes "step s ev = Some s'" and "i < length (timers s)"
    and "ToString (timer_taskId (timers s ! i)) = Inr segment"
  shows "queries i s' = queries i s @ (if ev = Tick i then [status_query segment] else [])"
proof (cases ev)
  case (Submit formData)
  with assms show ?thesis
    by (auto simp: step_Submit page_ops Let_def queries_def)
next
  case (Tick j)
  with assms show ?thesis
    by (auto simp: step_Tick page_ops queries_def status_query_def
        split: if_splits sum.splits)
next
  case (Settle k reply)
  with assms show ?thesis
    by (auto simp: step_Settle page_ops queries_def
        split: option.splits origin.splits outcome.splits sum.splits if_splits)
qed

lemma run_queries:
  assumes "run s evs = Some s'" and "i < length (timers s)"
    and "ToString (timer_taskId (timers s ! i)) = Inr segment"
  shows "queries i s' =
     queries i s @ replicate (count_list evs (Tick i)) (status_query segment)"
  using assms
proof (induction evs arbitrary: s)
  case Nil
  then show ?case by simp
next
  case (Cons ev evs)
  from Cons.prems(1) obtain s1 where s1: "step s ev = Some s1" and rest: "run s1 evs = Some s'"
    by (auto split: option.splits)
  from step_timers [OF s1 Cons.prems(2)] Cons.prems(3)
  have i: "i < length (timers s1)"
    and segment: "ToString (timer_taskId (timers s1 ! i)) = Inr segment"
    by simp_all
  from Cons.IH [OF rest i segment] step_queries [OF s1 Cons.prems(2,3)]
  show ?case
    by (simp add: replicate_app_Cons_same)
qed

lemma run_polling:
  assumes "run s evs = Some s'" and "polling i s"
    and "\<forall>reply \<in> set (replies_to i s evs). \<not> terminal reply"
  shows "polling i s'"
  using assms
proof (induction evs arbitrary: s)
  case Nil
  then show ?case by simp
next
  case (Cons ev evs)
  from Cons.prems(1) obtain s1 where s1: "step s ev = Some s1" and rest: "run s1 evs = Some s'"
    by (auto split: option.splits)
  from s1 have "replies_to i s (ev # evs) = replies_to i s [ev] @ replies_to i s1 evs"
    by simp
  with Cons.prems(3) have now: "\<forall>reply \<in> set (replies_to i s [ev]). \<not> terminal reply"
    and later: "\<forall>reply \<in> set (replies_to i s1 evs). \<not> terminal reply"
    by (auto simp del: replies_to.simps)
  from s1 Cons.prems(2) now have "polling i s1"
    by (rule step_polling)
  from rest this later show ?case
    by (rule Cons.IH)
qed

lemma run_ticks:
  assumes "polling i s"
  shows "\<exists>s'. run s (replicate n (Tick i)) = Some s' \<and> polling i s'"
  using assms
proof (induction n arbitrary: s)
  case 0
  then show ?case by simp
next
  case (Suc n)
  from Suc.prems have tick: "step s (Tick i) = Some (finish (interval_callback i s) s)"
    by (simp add: step_Tick)
  from tick Suc.prems have "polling i (finish (interval_callback i s) s)"
    by (rule step_polling) simp
  from Suc.IH [OF this] tick show ?case
    by simp
qed

lemma step_task_created:
  assumes "step s (Settle k (JsonResolved data)) = Some s'"
    and "map_of (awaiting s) k = Some Listener"
    and "Get data (lit ''task_id'') = Inr taskId"
  shows "s' = pollStatus taskId
           (set_statusText Listener (lit ''Task started...'') (resumed k s))"
  using assms by (simp add: step_Settle submit_resume_def finish_def)

text \<open>
  \<^verbatim>\<open>pollStatus\<close> issues no request itself; it registers the callback with a
  delay of 2000 ms. The page has no clock: when a timer fires is up to the
  browser, and a run only fixes the order of the events.
\<close>

lemma pollStatus_sets_timer:
  "pollStatus taskId s =
     s\<lparr>timers := timers s @
        [\<lparr>timer_taskId = taskId, timer_delay = 2000, timer_cleared = False\<rparr>]\<rparr>"
  by (simp add: pollStatus_def setInterval_def)


section \<open>Evaluation of examples\<close>

lemmas eval_defs =
  step_def page_ops page_load_def Get_def lit_def task_reply_def status_reply_def
  example_form_def example_history_def example_page_def
  comparison_urls_def comma_def String_trim_def isWhiteSpace_def Let_def
  polling_def stopped_def queries_def in_flight_def writes_by_def results_writes_def
  completion_def completions_def terminal_def status_query_def

lemma example_page_reached:
  "run (page_load (lit ''idle'') (lit ''none'')) example_history = Some example_page"
  by (simp add: eval_defs)

lemma example_page_awaiting: "map_of (awaiting example_page) 1 = Some (Interval 0)"
  by (simp add: example_page_def)


section \<open>Stopping on the terminal status\<close>

text \<open>
  C1, amended. Once a reply to a status query of a poll loop is processed in
  which the status is the exact string \<^verbatim>\<open>"Analysis Completed"\<close>, the timer of
  the loop is cleared for good: it cannot fire again, and no further status
  query is issued for the task. Processing that reply makes the completion
  update (status text and results text) once. Afterwards the update is made
  again once for every reply with the terminal status to a query of the loop
  that was still in flight, and for nothing else: never again, if no query of
  the loop is in flight at that moment.
\<close>

theorem terminal_reply_stops_polling:
  assumes reach: "run (page_load status_text results_text) history = Some s"
    and settle: "step s (Settle k reply) = Some s1"
    and mine: "map_of (awaiting s) k = Some (Interval i)"
    and final: "terminal reply"
    and later: "run s1 evs = Some s2"
  shows "stopped i s2 \<and> step s2 (Tick i) = None \<and> queries i s2 = queries i s \<and>
         writes s1 = writes s @ completion i \<and>
         completions i s1 = completions i s + 1 \<and>
         completions i s2 =
           completions i s1 + length (filter terminal (replies_to i s1 evs)) \<and>
         (\<not> in_flight i s1 \<longrightarrow>
            writes_by (Interval i) s2 = writes_by (Interval i) s1 \<and>
            completions i s2 = completions i s1)"
proof -
  have s1: "s1 = set_results (Interval i)
           (lit ''Check your analysis results in server logs or API response.'')
           (set_statusText (Interval i) (lit ''Analysis Completed!'')
              (clearInterval i (resumed k s)))"
    using settle mine final by (rule step_terminal)
  from mine have "(k, Interval i) \<in> set (awaiting s)"
    by (rule map_of_SomeD)
  with wf_reachable [OF reach] have i: "i < length (timers s)"
    by (force simp: wf_page_def)
  with s1 have stopped1: "stopped i s1"
    by (simp add: stopped_def page_ops)
  from s1 have queries1: "queries i s1 = queries i s"
    by (simp add: queries_def page_ops)
  from s1 have writes1: "writes s1 = writes s @ completion i"
    by (simp add: completion_def page_ops)
  then have count1: "completions i s1 = completions i s + 1"
    by (simp add: completions_def completion_def)
  from run_stopped [OF later stopped1] queries1
  have stopped2: "stopped i s2" and queries2: "queries i s2 = queries i s"
    by simp_all
  from stopped2 have tick: "step s2 (Tick i) = None"
    by (simp add: step_Tick polling_def stopped_def)
  from later have count2: "completions i s2 =
      completions i s1 + length (filter terminal (replies_to i s1 evs))"
    by (rule run_completions)
  have idle: "\<not> in_flight i s1 \<longrightarrow>
      writes_by (Interval i) s2 = writes_by (Interval i) s1 \<and>
      completions i s2 = completions i s1"
  proof
    assume "\<not> in_flight i s1"
    with run_idle [OF later stopped1]
    have "writes_by (Interval i) s2 = writes_by (Interval i) s1"
      by simp
    then show "writes_by (Interval i) s2 = writes_by (Interval i) s1 \<and>
        completions i s2 = completions i s1"
      by (simp add: completions_writes_by)
  qed
  from stopped2 tick queries2 writes1 count1 count2 idle show ?thesis
    by (intro conjI)
qed

theorem terminal_reply_stops_polling_witness:
  "map_option (stopped 0)
     (run example_page
        [Settle 1 (status_reply ''Analysis Completed''), Submit example_form]) = Some True \<and>
   map_option (completions 0)
     (run example_page
        [Settle 1 (status_reply ''Analysis Completed''), Submit example_form]) = Some 1"
proof -
  define s1 where
    "s1 = the (step example_page (Settle 1 (status_reply ''Analysis Completed'')))"
  define s2 where "s2 = the (run s1 [Submit example_form])"
  have settle: "step example_page (Settle 1 (status_reply ''Analysis Completed'')) = Some s1"
    unfolding s1_def by (simp add: eval_defs)
  have final: "terminal (status_reply ''Analysis Completed'')"
    by (simp add: eval_defs)
  have later: "run s1 [Submit example_form] = Some s2"
    unfolding s2_def by (simp add: step_Submit)
  have idle: "\<not> in_flight 0 s1"
    unfolding s1_def by (simp add: eval_defs)
  have none: "completions 0 example_page = 0"
    by (simp add: eval_defs)
  note inst = terminal_reply_stops_polling
    [OF example_page_reached settle example_page_awaiting final later]
  from inst have "stopped 0 s2"
    by (rule conjunct1)
  moreover from inst idle have "completions 0 s2 = completions 0 s1"
    by blast
  moreover from inst have "completions 0 s1 = completions 0 example_page + 1"
    by blast
  ultimately have "stopped 0 s2" and "completions 0 s2 = 1"
    using none by simp_all
  with settle later show ?thesis
    by simp
qed

text \<open>
  C1 as stated fails: when two status queries are in flight and both replies
  carry the terminal status, the completion update is made twice.
\<close>

theorem completion_signalled_twice:
  "map_option (completions 0)
     (run (page_load (lit ''idle'') (lit ''none''))
        (example_history @
         [Tick 0, Settle 1 (status_reply ''Analysis Completed''),
          Settle 2 (status_reply ''Analysis Completed'')])) = Some 2"
  by (simp add: eval_defs)


section \<open>The comparison URLs of a submission\<close>

text \<open>
  C2. For every string in the \<^verbatim>\<open>comparison_urls\<close> form field, the derived list
  is the field split on commas, each piece trimmed of surrounding white space,
  the empty pieces dropped, in the order of the field. Splitting on commas:
  the pieces contain no comma and joined with commas they give the field back.
  Trimming: a piece is its trimmed form between two runs of white space, and
  the trimmed form neither starts nor ends with white space. The field
  \<^verbatim>\<open>"a, b ,, c"\<close> gives \<^verbatim>\<open>["a", "b", "c"]\<close> and the empty field gives the
  empty list.
\<close>

theorem comparison_urls_split_trim_filter:
  "(\<exists>pieces.
      Array_join [comma] pieces = field \<and>
      (\<forall>p \<in> set pieces. comma \<notin> set p) \<and>
      comparison_urls field = filter (\<lambda>url. url \<noteq> []) (map String_trim pieces)) \<and>
   (\<forall>p. \<exists>l r.
      p = l @ String_trim p @ r \<and>
      (\<forall>c \<in> set l. isWhiteSpace c) \<and> (\<forall>c \<in> set r. isWhiteSpace c) \<and>
      (String_trim p \<noteq> [] \<longrightarrow>
         \<not> isWhiteSpace (hd (String_trim p)) \<and> \<not> isWhiteSpace (last (String_trim p)))) \<and>
   comparison_urls (lit ''a, b ,, c'') = [lit ''a'', lit ''b'', lit ''c''] \<and>
   comparison_urls (lit '''') = []"
proof -
  have split: "\<exists>pieces.
      Array_join [comma] pieces = field \<and>
      (\<forall>p \<in> set pieces. comma \<notin> set p) \<and>
      comparison_urls field = filter (\<lambda>url. url \<noteq> []) (map String_trim pieces)"
  proof (intro exI conjI)
    show "Array_join [comma] (String_split comma field) = field"
      by (rule Array_join_split)
    show "\<forall>p \<in> set (String_split comma field). comma \<notin> set p"
      by (simp add: String_split_no_sep)
    show "comparison_urls field =
        filter (\<lambda>url. url \<noteq> []) (map String_trim (String_split comma field))"
      by (simp add: comparison_urls_def)
  qed
  have trim: "\<forall>p. \<exists>l r.
      p = l @ String_trim p @ r \<and>
      (\<forall>c \<in> set l. isWhiteSpace c) \<and> (\<forall>c \<in> set r. isWhiteSpace c) \<and>
      (String_trim p \<noteq> [] \<longrightarrow>
         \<not> isWhiteSpace (hd (String_trim p)) \<and> \<not> isWhiteSpace (last (String_trim p)))"
  proof (intro allI exI conjI impI)
    fix p
    show "p = takeWhile isWhiteSpace p @ String_trim p
        @ rev (takeWhile isWhiteSpace (rev (dropWhile isWhiteSpace p)))"
      by (rule String_trim_decompose)
    show "\<forall>c \<in> set (takeWhile isWhiteSpace p). isWhiteSpace c"
      by (auto dest: set_takeWhileD)
    show "\<forall>c \<in> set (rev (takeWhile isWhiteSpace (rev (dropWhile isWhiteSpace p)))).
        isWhiteSpace c"
      by (auto dest: set_takeWhileD)
    assume "String_trim p \<noteq> []"
    then show "\<not> isWhiteSpace (hd (String_trim p))"
      and "\<not> isWhiteSpace (last (String_trim p))"
      by (rule String_trim_hd, rule String_trim_last)
  qed
  show ?thesis
    using split trim comparison_urls_example comparison_urls_empty
    by (intro conjI)
qed

theorem comparison_urls_split_trim_filter_witness:
  "comparison_urls (lit ''x, y'') = [lit ''x'', lit ''y''] \<and>
   String_trim (lit '' y'') \<noteq> [] \<and>
   \<not> isWhiteSpace (hd (String_trim (lit '' y''))) \<and>
   \<not> isWhiteSpace (last (String_trim (lit '' y'')))"
proof -
  have ne: "String_trim (lit '' y'') \<noteq> []"
    by (simp add: lit_def String_trim_def isWhiteSpace_def)
  have urls: "comparison_urls (lit ''x, y'') = [lit ''x'', lit ''y'']"
    by (simp add: comparison_urls_def comma_def lit_def String_trim_def isWhiteSpace_def)
  from comparison_urls_split_trim_filter [of "lit ''x, y''"]
  have "\<exists>l r. lit '' y'' = l @ String_trim (lit '' y'') @ r \<and>
      (\<forall>c \<in> set l. isWhiteSpace c) \<and> (\<forall>c \<in> set r. isWhiteSpace c) \<and>
      (String_trim (lit '' y'') \<noteq> [] \<longrightarrow>
         \<not> isWhiteSpace (hd (String_trim (lit '' y''))) \<and>
         \<not> isWhiteSpace (last (String_trim (lit '' y''))))"
    by (elim conjE allE)
  with ne have "\<not> isWhiteSpace (hd (String_trim (lit '' y''))) \<and>
      \<not> isWhiteSpace (last (String_trim (lit '' y'')))"
    by (elim exE conjE impE) (assumption, intro conjI)
  with ne urls show ?thesis
    by (intro conjI) simp_all
qed


section \<open>The in-progress label\<close>

text \<open>
  C3, amended. A reply to a status query whose status is a string other than
  \<^verbatim>\<open>"Analysis Completed"\<close> sets the status text to \<^verbatim>\<open>"Current Task: "\<close>
  followed by the status string unchanged, and leaves the timers as they are,
  so a loop that is polling goes on polling. When the replies to the status
  queries of a loop that a run processes are \<^verbatim>\<open>"Queued"\<close>, \<^verbatim>\<open>"Running"\<close> and
  \<^verbatim>\<open>"Analysis Completed"\<close>, in that order, the loop assigns exactly
  \<^verbatim>\<open>"Current Task: Queued"\<close>, then \<^verbatim>\<open>"Current Task: Running"\<close>, then the
  completion update, whatever else happens in the run.
\<close>

theorem in_progress_label_displayed:
  "(step s (Settle k (JsonResolved data)) = Some s' \<and>
    map_of (awaiting s) k = Some (Interval i) \<and>
    Get data (lit ''status'') = Inr (JSString label) \<and>
    label \<noteq> lit ''Analysis Completed'' \<longrightarrow>
      s' = set_statusText (Interval i) (lit ''Current Task: '' @ label) (resumed k s) \<and>
      statusText s' = lit ''Current Task: '' @ label \<and>
      timers s' = timers s \<and>
      (polling i s \<longrightarrow> polling i s')) \<and>
   (run s evs = Some s'' \<and>
    replies_to i s evs =
      [status_reply ''Queued'', status_reply ''Running'',
       status_reply ''Analysis Completed''] \<longrightarrow>
      writes_by (Interval i) s'' =
        writes_by (Interval i) s @
          [StatusText (Interval i) (lit ''Current Task: Queued''),
           StatusText (Interval i) (lit ''Current Task: Running'')] @ completion i)"
proof (intro conjI impI)
  assume a: "step s (Settle k (JsonResolved data)) = Some s' \<and>
    map_of (awaiting s) k = Some (Interval i) \<and>
    Get data (lit ''status'') = Inr (JSString label) \<and>
    label \<noteq> lit ''Analysis Completed''"
  then have settle: "step s (Settle k (JsonResolved data)) = Some s'"
    and mine: "map_of (awaiting s) k = Some (Interval i)"
    and status: "Get data (lit ''status'') = Inr (JSString label)"
    and other: "JSString label \<noteq> JSString (lit ''Analysis Completed'')"
    by simp_all
  from step_status [OF settle mine status other]
  show s': "s' = set_statusText (Interval i) (lit ''Current Task: '' @ label) (resumed k s)"
    by simp
  then show "statusText s' = lit ''Current Task: '' @ label"
    by (simp add: set_statusText_def)
  from s' show timers: "timers s' = timers s"
    by (simp add: set_statusText_def resumed_def)
  assume "polling i s"
  with timers show "polling i s'"
    by (simp add: polling_def)
next
  assume a: "run s evs = Some s'' \<and>
    replies_to i s evs =
      [status_reply ''Queued'', status_reply ''Running'',
       status_reply ''Analysis Completed'']"
  have queued: "assigned i (status_reply ''Queued'') =
      [StatusText (Interval i) (lit ''Current Task: Queued'')]"
    and running: "assigned i (status_reply ''Running'') =
      [StatusText (Interval i) (lit ''Current Task: Running'')]"
    by (simp_all add: status_reply_def assigned_label Get_def lit_def)
  have "terminal (status_reply ''Analysis Completed'')"
    by (simp add: terminal_def status_reply_def Get_def)
  then have completed: "assigned i (status_reply ''Analysis Completed'') = completion i"
    by (rule assigned_terminal)
  from a have run: "run s evs = Some s''"
    and replies: "replies_to i s evs =
      [status_reply ''Queued'', status_reply ''Running'',
       status_reply ''Analysis Completed'']"
    by simp_all
  from run_writes_by [OF run, of i] replies
  have "writes_by (Interval i) s'' =
      writes_by (Interval i) s @ concat (map (assigned i)
        [status_reply ''Queued'', status_reply ''Running'',
         status_reply ''Analysis Completed''])"
    by simp
  with queued running completed
  show "writes_by (Interval i) s'' =
      writes_by (Interval i) s @
        [StatusText (Interval i) (lit ''Current Task: Queued''),
         StatusText (Interval i) (lit ''Current Task: Running'')] @ completion i"
    by simp
qed

theorem in_progress_label_displayed_witness:
  "map_option statusText (step example_page (Settle 1 (status_reply ''Queued''))) =
     Some (lit ''Current Task: Queued'') \<and>
   map_option (writes_by (Interval 0))
     (run example_page
        [Tick 0, Settle 1 (status_reply ''Queued''), Settle 2 (status_reply ''Running''),
         Tick 0, Settle 3 (status_reply ''Analysis Completed'')]) =
     Some ([StatusText (Interval 0) (lit ''Current Task: Queued''),
            StatusText (Interval 0) (lit ''Current Task: Running'')] @ completion 0)"
proof -
  define s1 where "s1 = the (step example_page (Settle 1 (status_reply ''Queued'')))"
  define s2 where "s2 = the (run example_page
    [Tick 0, Settle 1 (status_reply ''Queued''), Settle 2 (status_reply ''Running''),
     Tick 0, Settle 3 (status_reply ''Analysis Completed'')])"
  have settle: "step example_page
      (Settle 1 (JsonResolved (JSObject [(lit ''status'', JSString (lit ''Queued''))]))) =
      Some s1"
    unfolding s1_def by (simp add: eval_defs)
  have status: "Get (JSObject [(lit ''status'', JSString (lit ''Queued''))]) (lit ''status'') =
      Inr (JSString (lit ''Queued''))"
    by (simp add: Get_def)
  have other: "lit ''Queued'' \<noteq> lit ''Analysis Completed''"
    by (simp add: lit_def)
  have run: "run example_page
      [Tick 0, Settle 1 (status_reply ''Queued''), Settle 2 (status_reply ''Running''),
       Tick 0, Settle 3 (status_reply ''Analysis Completed'')] = Some s2"
    unfolding s2_def by (simp add: eval_defs)
  have replies: "replies_to 0 example_page
      [Tick 0, Settle 1 (status_reply ''Queued''), Settle 2 (status_reply ''Running''),
       Tick 0, Settle 3 (status_reply ''Analysis Completed'')] =
      [status_reply ''Queued'', status_reply ''Running'',
       status_reply ''Analysis Completed'']"
    by (simp add: eval_defs)
  have before: "writes_by (Interval 0) example_page = []"
    by (simp add: example_page_def writes_by_def)
  note inst = in_progress_label_displayed
    [where s = example_page and k = 1 and i = 0 and s' = s1 and label = "lit ''Queued''"
       and data = "JSObject [(lit ''status'', JSString (lit ''Queued''))]"
       and evs = "[Tick 0, Settle 1 (status_reply ''Queued''),
         Settle 2 (status_reply ''Running''),
         Tick 0, Settle 3 (status_reply ''Analysis Completed'')]"
       and s'' = s2]
  from inst settle example_page_awaiting status other
  have "statusText s1 = lit ''Current Task: '' @ lit ''Queued''"
    by blast
  then have first: "map_option statusText (step example_page (Settle 1 (status_reply ''Queued''))) =
      Some (lit ''Current Task: Queued'')"
    using settle by (simp add: status_reply_def lit_def)
  from inst run replies
  have "writes_by (Interval 0) s2 =
      writes_by (Interval 0) example_page @
        [StatusText (Interval 0) (lit ''Current Task: Queued''),
         StatusText (Interval 0) (lit ''Current Task: Running'')] @ completion 0"
    by blast
  with before run
  have "map_option (writes_by (Interval 0))
     (run example_page
        [Tick 0, Settle 1 (status_reply ''Queued''), Settle 2 (status_reply ''Running''),
         Tick 0, Settle 3 (status_reply ''Analysis Completed'')]) =
     Some ([StatusText (Interval 0) (lit ''Current Task: Queued''),
            StatusText (Interval 0) (lit ''Current Task: Running'')] @ completion 0)"
    by simp
  with first show ?thesis
    by (rule conjI)
qed

text \<open>
  C3 as stated fails: for the status \<^verbatim>\<open>"Queued"\<close> the status text becomes
  \<^verbatim>\<open>"Current Task: Queued"\<close>, which is not the status string itself.
\<close>

theorem label_is_prefixed:
  "map_option statusText
     (run (page_load (lit ''idle'') (lit ''none''))
        (example_history @ [Settle 1 (status_reply ''Queued'')])) =
     Some (lit ''Current Task: Queued'') \<and>
   lit ''Current Task: Queued'' \<noteq> lit ''Queued''"
  by (simp add: eval_defs)


section \<open>Polling without bound\<close>

text \<open>
  C5. A poll loop that is polling is still polling after any run of events
  in which none of its status queries is answered with the terminal status,
  however long the run is and whatever else happens in it (other statuses,
  failed requests, bodies that are not JSON, replies to other loops). Its
  timer can then fire any number of times more, and every firing so far has
  issued one status query (when the task id converts to a string): nothing
  but the terminal status ends the loop, no count of attempts and no timeout.
\<close>

theorem polling_never_stops:
  assumes polling: "polling i s"
    and run: "run s evs = Some s'"
    and none: "\<forall>reply \<in> set (replies_to i s evs). \<not> terminal reply"
  shows "polling i s' \<and>
         (\<forall>n. \<exists>s''. run s' (replicate n (Tick i)) = Some s'' \<and> polling i s'') \<and>
         (\<forall>segment. ToString (timer_taskId (timers s ! i)) = Inr segment \<longrightarrow>
            queries i s' =
              queries i s @ replicate (count_list evs (Tick i)) (status_query segment))"
proof (intro conjI allI impI)
  from run polling none show polling': "polling i s'"
    by (rule run_polling)
  fix n
  from polling' show "\<exists>s''. run s' (replicate n (Tick i)) = Some s'' \<and> polling i s''"
    by (rule run_ticks)
next
  fix segment
  assume "ToString (timer_taskId (timers s ! i)) = Inr segment"
  moreover from polling have "i < length (timers s)"
    by (simp add: polling_def)
  ultimately show "queries i s' =
      queries i s @ replicate (count_list evs (Tick i)) (status_query segment)"
    using run by (intro run_queries)
qed

theorem polling_never_stops_witness:
  "map_option (polling 0)
     (run example_page
        [Settle 1 (status_reply ''Running''), Tick 0, Settle 2 FetchRejected, Tick 0]) =
     Some True \<and>
   map_option (queries 0)
     (run example_page
        [Settle 1 (status_reply ''Running''), Tick 0, Settle 2 FetchRejected, Tick 0]) =
     Some [status_query (lit ''t''), status_query (lit ''t''), status_query (lit ''t'')]"
proof -
  define s' where "s' = the (run example_page
    [Settle 1 (status_reply ''Running''), Tick 0, Settle 2 FetchRejected, Tick 0])"
  have run: "run example_page
      [Settle 1 (status_reply ''Running''), Tick 0, Settle 2 FetchRejected, Tick 0] = Some s'"
    unfolding s'_def by (simp add: eval_defs)
  have polling: "polling 0 example_page"
    and segment: "ToString (timer_taskId (timers example_page ! 0)) = Inr (lit ''t'')"
    and before: "queries 0 example_page = [status_query (lit ''t'')]"
    by (simp_all add: example_page_def polling_def queries_def)
  have none: "\<forall>reply \<in> set (replies_to 0 example_page
      [Settle 1 (status_reply ''Running''), Tick 0, Settle 2 FetchRejected, Tick 0]).
      \<not> terminal reply"
    by (simp add: eval_defs)
  from polling_never_stops [OF polling run none] segment before
  have "polling 0 s'"
    and "queries 0 s' =
      [status_query (lit ''t''), status_query (lit ''t''), status_query (lit ''t'')]"
    by (simp_all add: numeral_2_eq_2)
  with run show ?thesis
    by simp
qed


section \<open>The task id in the status queries\<close>

text \<open>
  C6. When the reply to a submission is processed and \<^verbatim>\<open>data.task_id\<close> gives a
  value, a timer is set for that value, and from then on, whatever happens on
  the page, every status query of that timer's poll loop is a
  \<^verbatim>\<open>GET\<close> of \<^verbatim>\<open>"/results/"\<close> followed by the value converted to a string. For a
  task id that is a string, the path segment is the string itself, unchanged.
\<close>

theorem task_id_in_every_query:
  assumes reach: "run (page_load status_text results_text) history = Some s"
    and settle: "step s (Settle k (JsonResolved data)) = Some s1"
    and mine: "map_of (awaiting s) k = Some Listener"
    and task: "Get data (lit ''task_id'') = Inr taskId"
    and later: "run s1 evs = Some s2"
  shows "timers s1 = timers s @
           [\<lparr>timer_taskId = taskId, timer_delay = 2000, timer_cleared = False\<rparr>] \<and>
         timer_taskId (timers s2 ! length (timers s)) = taskId \<and>
         (\<forall>q \<in> set (queries (length (timers s)) s2).
            \<exists>segment. ToString taskId = Inr segment \<and> q = status_query segment) \<and>
         (\<forall>t. taskId = JSString t \<longrightarrow>
            (\<forall>q \<in> set (queries (length (timers s)) s2).
               req_url q = lit ''/results/'' @ t \<and> q = status_query t))"
proof -
  let ?i = "length (timers s)"
  from step_task_created [OF settle mine task]
  have timers1: "timers s1 = timers s @
      [\<lparr>timer_taskId = taskId, timer_delay = 2000, timer_cleared = False\<rparr>]"
    by (simp add: page_ops)
  then have "?i < length (timers s1)" and "timer_taskId (timers s1 ! ?i) = taskId"
    by simp_all
  with run_timers [OF later, of ?i]
  have taskId2: "timer_taskId (timers s2 ! ?i) = taskId"
    by simp
  from reach have "wf_page s"
    by (rule wf_reachable)
  then have "wf_page s1"
    using settle by (rule wf_step)
  with later have wf2: "wf_page s2"
    by (rule wf_run)
  have all: "\<forall>q \<in> set (queries ?i s2).
      \<exists>segment. ToString taskId = Inr segment \<and> q = status_query segment"
  proof
    fix q
    assume "q \<in> set (queries ?i s2)"
    then obtain f where "f \<in> set (fetches s2)" and "origin f = Interval ?i"
      and "q = request f"
      by (auto simp: queries_def)
    with wf2 taskId2
    show "\<exists>segment. ToString taskId = Inr segment \<and> q = status_query segment"
      by (auto simp: wf_page_def)
  qed
  have string: "\<forall>t. taskId = JSString t \<longrightarrow>
      (\<forall>q \<in> set (queries ?i s2). req_url q = lit ''/results/'' @ t \<and> q = status_query t)"
    using all by (auto simp: status_query_def)
  from timers1 taskId2 all string show ?thesis
    by (intro conjI)
qed

theorem task_id_in_every_query_witness:
  "map_option (queries 0)
     (run (page_load (lit ''idle'') (lit ''none''))
        [Submit example_form, Settle 0 (task_reply ''t''), Tick 0, Tick 0]) =
     Some [status_query (lit ''t''), status_query (lit ''t'')] \<and>
   req_url (status_query (lit ''t'')) = lit ''/results/t''"
proof -
  define s where "s = the (step (page_load (lit ''idle'') (lit ''none''))
    (Submit example_form))"
  define s1 where "s1 = the (step s (Settle 0 (task_reply ''t'')))"
  define s2 where "s2 = the (run s1 [Tick 0, Tick 0])"
  have reach: "run (page_load (lit ''idle'') (lit ''none'')) [Submit example_form] = Some s"
    unfolding s_def by (simp add: step_Submit)
  have settle: "step s
      (Settle 0 (JsonResolved (JSObject [(lit ''task_id'', JSString (lit ''t''))]))) = Some s1"
    unfolding s1_def s_def by (simp add: eval_defs)
  have mine: "map_of (awaiting s) 0 = Some Listener"
    unfolding s_def by (simp add: eval_defs)
  have task: "Get (JSObject [(lit ''task_id'', JSString (lit ''t''))]) (lit ''task_id'') =
      Inr (JSString (lit ''t''))"
    by (simp add: Get_def)
  have later: "run s1 [Tick 0, Tick 0] = Some s2"
    unfolding s2_def s1_def s_def by (simp add: eval_defs)
  have none: "timers s = []"
    unfolding s_def by (simp add: eval_defs)
  have issued: "queries 0 s2 = [status_query (lit ''t''), status_query (lit ''t'')]"
    unfolding s2_def s1_def s_def by (simp add: eval_defs)
  from task_id_in_every_query [OF reach settle mine task later] none issued
  have "req_url (status_query (lit ''t'')) = lit ''/results/'' @ lit ''t''"
    by simp
  moreover have "run (page_load (lit ''idle'') (lit ''none''))
      [Submit example_form, Settle 0 (task_reply ''t''), Tick 0, Tick 0] = Some s2"
    using reach settle later by (auto simp: task_reply_def split: option.splits)
  ultimately show ?thesis
    using issued by (simp add: lit_def)
qed


section \<open>The task-creation request\<close>

text \<open>
  C7. Submitting the form issues exactly one request and changes nothing else
  on the page: a \<^verbatim>\<open>POST\<close> to \<^verbatim>\<open>/analyze\<close> with the single header
  \<^verbatim>\<open>Content-Type: application/json\<close>, whose body is the JSON text of an object
  with exactly two properties, \<^verbatim>\<open>main_url\<close>, the form field as it is, and
  \<^verbatim>\<open>comparison_urls\<close>, the array of strings derived from the other field. The
  rest of the listener, run when the reply comes, issues no request.
\<close>

theorem submit_issues_one_request:
  "step s (Submit formData) =
     Some (s\<lparr>fetches := fetches s @
              [\<lparr>origin = Listener,
                request =
                  \<lparr>req_method = lit ''POST'',
                   req_url = lit ''/analyze'',
                   req_headers = [(lit ''Content-Type'', lit ''application/json'')],
                   req_json = Some (JSObject
                     [(lit ''main_url'', JSString (field_main_url formData)),
                      (lit ''comparison_urls'',
                       JSArray (map JSString
                         (comparison_urls (field_comparison_urls formData))))])\<rparr>\<rparr>],
            awaiting := awaiting s @ [(length (fetches s), Listener)]\<rparr>) \<and>
   (\<forall>k reply s'.
      map_of (awaiting s) k = Some Listener \<and> step s (Settle k reply) = Some s' \<longrightarrow>
        fetches s' = fetches s)"
proof (intro conjI allI impI)
  show "step s (Submit formData) =
     Some (s\<lparr>fetches := fetches s @
              [\<lparr>origin = Listener,
                request =
                  \<lparr>req_method = lit ''POST'',
                   req_url = lit ''/analyze'',
                   req_headers = [(lit ''Content-Type'', lit ''application/json'')],
                   req_json = Some (JSObject
                     [(lit ''main_url'', JSString (field_main_url formData)),
                      (lit ''comparison_urls'',
                       JSArray (map JSString
                         (comparison_urls (field_comparison_urls formData))))])\<rparr>\<rparr>],
            awaiting := awaiting s @ [(length (fetches s), Listener)]\<rparr>)"
    by (simp add: step_Submit submit_listener_def await_fetch_def Let_def)
next
  fix k reply s'
  assume "map_of (awaiting s) k = Some Listener \<and> step s (Settle k reply) = Some s'"
  then show "fetches s' = fetches s"
    by (auto simp: step_Settle page_ops split: outcome.splits sum.splits)
qed

theorem submit_issues_one_request_witness:
  "map_option fetches (step (page_load (lit ''idle'') (lit ''none'')) (Submit example_form)) =
     Some [\<lparr>origin = Listener,
            request =
              \<lparr>req_method = lit ''POST'',
               req_url = lit ''/analyze'',
               req_headers = [(lit ''Content-Type'', lit ''application/json'')],
               req_json = Some (JSObject
                 [(lit ''main_url'', JSString (lit ''http://x'')),
                  (lit ''comparison_urls'',
                   JSArray [JSString (lit ''a''), JSString (lit ''b''),
                            JSString (lit ''c'')])])\<rparr>\<rparr>] \<and>
   map_option fetches
     (run (page_load (lit ''idle'') (lit ''none''))
        [Submit example_form, Settle 0 (task_reply ''t'')]) =
   map_option fetches (step (page_load (lit ''idle'') (lit ''none'')) (Submit example_form))"
proof -
  define s where "s = the (step (page_load (lit ''idle'') (lit ''none''))
    (Submit example_form))"
  define s1 where "s1 = the (step s (Settle 0 (task_reply ''t'')))"
  note inst = submit_issues_one_request
    [where s = "page_load (lit ''idle'') (lit ''none'')" and formData = example_form]
  note inst1 = submit_issues_one_request [where s = s]
  have submit: "step (page_load (lit ''idle'') (lit ''none'')) (Submit example_form) = Some s"
    unfolding s_def by (simp add: step_Submit)
  have settle: "step s (Settle 0 (task_reply ''t'')) = Some s1"
    unfolding s1_def s_def by (simp add: eval_defs)
  have mine: "map_of (awaiting s) 0 = Some Listener"
    unfolding s_def by (simp add: eval_defs)
  from inst submit have "fetches s =
      [\<lparr>origin = Listener,
        request =
          \<lparr>req_method = lit ''POST'',
           req_url = lit ''/analyze'',
           req_headers = [(lit ''Content-Type'', lit ''application/json'')],
           req_json = Some (JSObject
             [(lit ''main_url'', JSString (lit ''http://x'')),
              (lit ''comparison_urls'',
               JSArray [JSString (lit ''a''), JSString (lit ''b''),
                        JSString (lit ''c'')])])\<rparr>\<rparr>]"
    by (auto simp: page_load_def example_form_def comparison_urls_example)
  moreover from inst1 mine settle have "fetches s1 = fetches s"
    by blast
  ultimately show ?thesis
    using submit settle by simp
qed


section \<open>Failure of the submission\<close>

text \<open>
  C8. When the request of a submission fails, or the body of its response is
  not JSON, the listener ends with a rejection that nothing handles. The
  status text and the results text are not assigned and stay as they were, no
  timer is set, no request is issued, and the listener is never resumed.
\<close>

theorem submit_failure_unhandled:
  assumes settle: "step s (Settle k reply) = Some s'"
    and mine: "map_of (awaiting s) k = Some Listener"
    and failed: "reply = FetchRejected \<or> reply = JsonRejected"
  shows "s' = (resumed k s)
           \<lparr>unhandled := unhandled s @
              [if reply = FetchRejected then FetchError else SyntaxError]\<rparr> \<and>
         statusText s' = statusText s \<and> results s' = results s \<and>
         writes s' = writes s \<and> timers s' = timers s \<and> fetches s' = fetches s \<and>
         (\<forall>reply'. step s' (Settle k reply') = None)"
proof -
  from assms have s': "s' = (resumed k s)
      \<lparr>unhandled := unhandled s @
         [if reply = FetchRejected then FetchError else SyntaxError]\<rparr>"
    by (auto simp: step_Settle submit_resume_def finish_def resumed_def)
  have "k \<notin> fst ` set (filter (\<lambda>a. fst a \<noteq> k) (awaiting s))"
    by auto
  then have "map_of (filter (\<lambda>a. fst a \<noteq> k) (awaiting s)) k = None"
    by (simp add: map_of_eq_None_iff)
  with s' have "\<forall>reply'. step s' (Settle k reply') = None"
    by (simp add: step_Settle resumed_def)
  with s' show ?thesis
    by (simp add: resumed_def)
qed

theorem submit_failure_unhandled_witness:
  "map_option unhandled
     (run (page_load (lit ''idle'') (lit ''none''))
        [Submit example_form, Settle 0 JsonRejected]) = Some [SyntaxError] \<and>
   map_option statusText
     (run (page_load (lit ''idle'') (lit ''none''))
        [Submit example_form, Settle 0 JsonRejected]) = Some (lit ''idle'') \<and>
   map_option timers
     (run (page_load (lit ''idle'') (lit ''none''))
        [Submit example_form, Settle 0 JsonRejected]) = Some []"
proof -
  define s where "s = the (step (page_load (lit ''idle'') (lit ''none''))
    (Submit example_form))"
  define s1 where "s1 = the (step s (Settle 0 JsonRejected))"
  have submit: "step (page_load (lit ''idle'') (lit ''none'')) (Submit example_form) = Some s"
    unfolding s_def by (simp add: step_Submit)
  have settle: "step s (Settle 0 JsonRejected) = Some s1"
    unfolding s1_def s_def by (simp add: eval_defs)
  have mine: "map_of (awaiting s) 0 = Some Listener"
    unfolding s_def by (simp add: eval_defs)
  have before: "unhandled s = []" "statusText s = lit ''idle''" "timers s = []"
    unfolding s_def by (simp_all add: eval_defs)
  from submit_failure_unhandled [OF settle mine] before
  have "unhandled s1 = [SyntaxError]" and "statusText s1 = lit ''idle''" and "timers s1 = []"
    by (simp_all add: resumed_def)
  with submit settle show ?thesis
    by simp
qed


section \<open>What a poll iteration changes\<close>

text \<open>
  C9, amended. When the reply to a status query of a poll loop is processed
  and it is not one with the terminal status, nothing on the page changes but
  the status text (or, when the iteration fails, the unhandled rejections):
  the results text stays as it is and is not assigned. When the reply has the
  terminal status, the results text is assigned once. So in every run the
  loop writes the results element once for each reply with the terminal
  status that it processes, and at no other time.
\<close>

theorem results_written_by_terminal_iterations:
  "(step s (Settle k reply) = Some s' \<and> map_of (awaiting s) k = Some (Interval i) \<longrightarrow>
      (\<not> terminal reply \<longrightarrow>
         ((\<exists>label. s' = set_statusText (Interval i) label (resumed k s)) \<or>
          (\<exists>e. s' = (resumed k s)\<lparr>unhandled := unhandled s @ [e]\<rparr>)) \<and>
         results s' = results s \<and>
         results_writes s' = results_writes s) \<and>
      (terminal reply \<longrightarrow>
         results_writes s' =
           results_writes s @
             [Results (Interval i)
                (lit ''Check your analysis results in server logs or API response.'')])) \<and>
   (run s evs = Some s'' \<longrightarrow>
      filter is_Results (writes_by (Interval i) s'') =
        filter is_Results (writes_by (Interval i) s) @
          replicate (length (filter terminal (replies_to i s evs)))
            (Results (Interval i)
               (lit ''Check your analysis results in server logs or API response.'')))"
proof (intro conjI impI)
  assume a: "step s (Settle k reply) = Some s' \<and> map_of (awaiting s) k = Some (Interval i)"
  then have settle: "step s (Settle k reply) = Some s'"
    and mine: "map_of (awaiting s) k = Some (Interval i)"
    by simp_all
  {
    assume "\<not> terminal reply"
    with settle mine
    show frame: "(\<exists>label. s' = set_statusText (Interval i) label (resumed k s)) \<or>
        (\<exists>e. s' = (resumed k s)\<lparr>unhandled := unhandled s @ [e]\<rparr>)"
      by (rule step_not_terminal)
    then show "results s' = results s"
      by (auto simp: set_statusText_def resumed_def)
    from frame show "results_writes s' = results_writes s"
      by (auto simp: set_statusText_def resumed_def results_writes_def)
  }
  assume "terminal reply"
  with settle mine have "s' = set_results (Interval i)
      (lit ''Check your analysis results in server logs or API response.'')
      (set_statusText (Interval i) (lit ''Analysis Completed!'')
         (clearInterval i (resumed k s)))"
    by (rule step_terminal)
  then show "results_writes s' =
      results_writes s @
        [Results (Interval i)
           (lit ''Check your analysis results in server logs or API response.'')]"
    by (simp add: page_ops results_writes_def)
next
  assume "run s evs = Some s''"
  then show "filter is_Results (writes_by (Interval i) s'') =
      filter is_Results (writes_by (Interval i) s) @
        replicate (length (filter terminal (replies_to i s evs)))
          (Results (Interval i)
             (lit ''Check your analysis results in server logs or API response.''))"
    by (rule run_results)
qed

theorem results_written_by_terminal_iterations_witness:
  "map_option results (step example_page (Settle 1 (status_reply ''Running''))) =
     Some (lit ''none'') \<and>
   map_option results_writes
     (step example_page (Settle 1 (status_reply ''Analysis Completed''))) =
     Some [Results (Interval 0)
             (lit ''Check your analysis results in server logs or API response.'')]"
proof -
  define s1 where "s1 = the (step example_page (Settle 1 (status_reply ''Running'')))"
  define s2 where
    "s2 = the (step example_page (Settle 1 (status_reply ''Analysis Completed'')))"
  have step1: "step example_page (Settle 1 (status_reply ''Running'')) = Some s1"
    unfolding s1_def by (simp add: eval_defs)
  have step2: "step example_page (Settle 1 (status_reply ''Analysis Completed'')) = Some s2"
    unfolding s2_def by (simp add: eval_defs)
  have running: "\<not> terminal (status_reply ''Running'')"
    by (simp add: eval_defs)
  have completed: "terminal (status_reply ''Analysis Completed'')"
    by (simp add: eval_defs)
  have before: "results example_page = lit ''none''" "results_writes example_page = []"
    by (simp_all add: example_page_def results_writes_def)
  note inst1 = results_written_by_terminal_iterations
    [where s = example_page and k = 1 and i = 0 and s' = s1
       and reply = "status_reply ''Running''"]
  note inst2 = results_written_by_terminal_iterations
    [where s = example_page and k = 1 and i = 0 and s' = s2
       and reply = "status_reply ''Analysis Completed''"]
  from inst1 step1 example_page_awaiting running
  have "results s1 = results example_page"
    by blast
  moreover
  from inst2 step2 example_page_awaiting completed
  have "results_writes s2 =
      results_writes example_page @
        [Results (Interval 0)
           (lit ''Check your analysis results in server logs or API response.'')]"
    by blast
  ultimately show ?thesis
    using step1 step2 before by simp
qed

text \<open>
  C9 as stated fails: with three queries in flight of which two are answered
  with the terminal status, the results element is written twice.
\<close>

theorem results_written_twice:
  "map_option results_writes
     (run (page_load (lit ''idle'') (lit ''none''))
        (example_history @
         [Tick 0, Tick 0, Settle 3 (status_reply ''Analysis Completed''),
          Settle 1 (status_reply ''Analysis Completed'')])) =
     Some [Results (Interval 0)
             (lit ''Check your analysis results in server logs or API response.''),
           Results (Interval 0)
             (lit ''Check your analysis results in server logs or API response.'')]"
  by (simp add: eval_defs)


section \<open>Statuses other than the terminal one\<close>

text \<open>
  C10, amended. Whatever the reply to a status query of a poll loop is, unless
  its status is the exact string \<^verbatim>\<open>"Analysis Completed"\<close> the iteration leaves
  the timers as they are: a loop that is polling goes on polling, and nothing
  but strict equality with that string stops it. When the body is not
  \<^verbatim>\<open>null\<close>, so that reading \<^verbatim>\<open>data.status\<close> gives a value (\<^verbatim>\<open>undefined\<close> when
  the field is absent), the iteration displays \<^verbatim>\<open>"Current Task: "\<close> followed
  by the value converted to a string and does not fail, provided the
  conversion succeeds; it does for \<^verbatim>\<open>undefined\<close>, \<^verbatim>\<open>null\<close>, booleans, numbers
  and strings. When the conversion throws, the iteration fails with that
  error and displays nothing, and the loop still goes on.
\<close>

theorem other_status_keeps_polling:
  assumes settle: "step s (Settle k reply) = Some s'"
    and mine: "map_of (awaiting s) k = Some (Interval i)"
    and other: "\<not> terminal reply"
  shows "timers s' = timers s \<and> (polling i s \<longrightarrow> polling i s') \<and> results s' = results s \<and>
         (\<forall>data status.
            reply = JsonResolved data \<and> Get data (lit ''status'') = Inr status \<longrightarrow>
              (\<forall>text. ToString status = Inr text \<longrightarrow>
                 unhandled s' = unhandled s \<and>
                 statusText s' = lit ''Current Task: '' @ text) \<and>
              (\<forall>e. ToString status = Inl e \<longrightarrow>
                 unhandled s' = unhandled s @ [e] \<and> statusText s' = statusText s) \<and>
              ((\<exists>xs. status = JSArray xs) \<or> (\<exists>props. status = JSObject props) \<or>
               unhandled s' = unhandled s))"
proof -
  from settle mine other
  have frame: "(\<exists>label. s' = set_statusText (Interval i) label (resumed k s)) \<or>
      (\<exists>e. s' = (resumed k s)\<lparr>unhandled := unhandled s @ [e]\<rparr>)"
    by (rule step_not_terminal)
  then have timers: "timers s' = timers s"
    by (auto simp: set_statusText_def resumed_def)
  then have polling: "polling i s \<longrightarrow> polling i s'"
    by (simp add: polling_def)
  from frame have results: "results s' = results s"
    by (auto simp: set_statusText_def resumed_def)
  have status: "\<forall>data status.
      reply = JsonResolved data \<and> Get data (lit ''status'') = Inr status \<longrightarrow>
        (\<forall>text. ToString status = Inr text \<longrightarrow>
           unhandled s' = unhandled s \<and>
           statusText s' = lit ''Current Task: '' @ text) \<and>
        (\<forall>e. ToString status = Inl e \<longrightarrow>
           unhandled s' = unhandled s @ [e] \<and> statusText s' = statusText s) \<and>
        ((\<exists>xs. status = JSArray xs) \<or> (\<exists>props. status = JSObject props) \<or>
         unhandled s' = unhandled s)"
  proof (intro allI impI)
    fix data status
    assume "reply = JsonResolved data \<and> Get data (lit ''status'') = Inr status"
    then have reply: "reply = JsonResolved data"
      and get: "Get data (lit ''status'') = Inr status"
      by simp_all
    from other reply get have ne: "status \<noteq> JSString (lit ''Analysis Completed'')"
      by (auto simp: terminal_def)
    from settle reply have "step s (Settle k (JsonResolved data)) = Some s'"
      by simp
    from step_status [OF this mine get ne]
    have s': "s' = (case ToString status of
        Inl e \<Rightarrow> (resumed k s)\<lparr>unhandled := unhandled s @ [e]\<rparr>
      | Inr text \<Rightarrow>
          set_statusText (Interval i) (lit ''Current Task: '' @ text) (resumed k s))" .
    have ok: "\<forall>text. ToString status = Inr text \<longrightarrow>
        unhandled s' = unhandled s \<and> statusText s' = lit ''Current Task: '' @ text"
      using s' by (simp add: set_statusText_def resumed_def)
    have fails: "\<forall>e. ToString status = Inl e \<longrightarrow>
        unhandled s' = unhandled s @ [e] \<and> statusText s' = statusText s"
      using s' by (simp add: resumed_def)
    from primitive_ToString [of status] ok
    have "(\<exists>xs. status = JSArray xs) \<or> (\<exists>props. status = JSObject props) \<or>
        unhandled s' = unhandled s"
      by blast
    with ok fails
    show "(\<forall>text. ToString status = Inr text \<longrightarrow>
           unhandled s' = unhandled s \<and>
           statusText s' = lit ''Current Task: '' @ text) \<and>
        (\<forall>e. ToString status = Inl e \<longrightarrow>
           unhandled s' = unhandled s @ [e] \<and> statusText s' = statusText s) \<and>
        ((\<exists>xs. status = JSArray xs) \<or> (\<exists>props. status = JSObject props) \<or>
         unhandled s' = unhandled s)"
      by (intro conjI)
  qed
  from timers polling results status show ?thesis
    by (intro conjI)
qed

theorem other_status_keeps_polling_witness:
  "map_option statusText (step example_page (Settle 1 (JsonResolved (JSObject [])))) =
     Some (lit ''Current Task: undefined'') \<and>
   map_option (polling 0) (step example_page (Settle 1 (JsonResolved (JSObject [])))) =
     Some True \<and>
   map_option unhandled (step example_page (Settle 1 (JsonResolved (JSObject [])))) =
     Some []"
proof -
  define s1 where "s1 = the (step example_page (Settle 1 (JsonResolved (JSObject []))))"
  have settle: "step example_page (Settle 1 (JsonResolved (JSObject []))) = Some s1"
    unfolding s1_def by (simp add: eval_defs)
  have other: "\<not> terminal (JsonResolved (JSObject []))"
    by (simp add: eval_defs)
  have status: "Get (JSObject []) (lit ''status'') = Inr JSUndefined"
    by (simp add: Get_def)
  have shown: "ToString JSUndefined = Inr (lit ''undefined'')"
    by simp
  have polling: "polling 0 example_page" and none: "unhandled example_page = []"
    by (simp_all add: example_page_def polling_def)
  from other_status_keeps_polling [OF settle example_page_awaiting other]
    status shown polling none
  have "polling 0 s1" and "unhandled s1 = []"
    and "statusText s1 = lit ''Current Task: '' @ lit ''undefined''"
    by auto
  with settle show ?thesis
    by (simp add: lit_def)
qed

text \<open>
  C10 as stated fails: the status \<^verbatim>\<open>{"toString": 0}\<close> is not the terminal
  string, and the iteration fails with a TypeError when the template literal
  converts it.
\<close>

theorem unconvertible_status_fails:
  "map_option unhandled
     (run (page_load (lit ''idle'') (lit ''none''))
        (example_history @
         [Settle 1 (JsonResolved (JSObject
            [(lit ''status'', JSObject [(lit ''toString'', JSNumber (lit ''0''))])]))])) =
     Some [TypeError]"
  by (simp add: eval_defs)

end
